theory Spec2Isabelle
  imports Main "HOL-Library.Sublist"
begin

section \<open>Text\<close>

text \<open>
  The script \<^verbatim>\<open>phase2_replacements.py\<close> works on Python \<^verbatim>\<open>str\<close> values, which are
  sequences of Unicode code points.  A text is therefore a list of code points (natural
  numbers); \<open>ascii\<close> embeds an ASCII string literal.
\<close>

type_synonym str = "nat list"

definition ascii :: "string \<Rightarrow> str" where
  "ascii s = map of_char s"

definition BACKSLASH :: nat where
  "BACKSLASH = 92"

definition QUOTE :: nat where
  "QUOTE = 39"

definition LF :: nat where
  "LF = 10"

definition CR :: nat where
  "CR = 13"

text \<open>\<open>esc s\<close> is the text \<^verbatim>\<open>\s\<close>: a backslash followed by \<open>s\<close>.\<close>

definition esc :: "string \<Rightarrow> str" where
  "esc s = BACKSLASH # ascii s"

section \<open>The fragment of Python's \<^verbatim>\<open>re\<close> module used by the script\<close>

datatype py_error =
    FileNotFoundError | PermissionError | UnicodeDecodeError | UnicodeEncodeError | PatternError

text \<open>
  A call either returns a value, raises, or lies outside the fragment of the library
  that is modelled here (\<open>NotModelled\<close>); nothing is claimed about calls of the last kind.
\<close>

datatype 'a result = Returns 'a | Raises py_error | NotModelled

text \<open>
  Pattern syntax, after \<^verbatim>\<open>sre_parse\<close>.  The pattern is read from left to right.  An
  unescaped character outside \<^verbatim>\<open>. \ [ { ( ) * + ? ^ $ |\<close> is a literal; a backslash
  followed by a character that is not an ASCII letter or digit is that character as a
  literal; a backslash that ends the pattern raises \<^verbatim>\<open>re.error\<close> (``bad escape (end of
  pattern)'').  Everything else (operators, groups, sets, class escapes) is outside the
  fragment, and so is whatever follows it: of a pattern that leaves the fragment nothing is
  said, not even whether it compiles.
\<close>

datatype pattern = Literal str | Malformed | Unsupported

definition SPECIAL_CHARS :: "nat set" where
  "SPECIAL_CHARS = set (ascii ''.[{()*+?^$|'') \<union> {BACKSLASH}"

definition ascii_alnum :: "nat \<Rightarrow> bool" where
  "ascii_alnum c \<longleftrightarrow> (48 \<le> c \<and> c \<le> 57) \<or> (65 \<le> c \<and> c \<le> 90) \<or> (97 \<le> c \<and> c \<le> 122)"

fun add_literal :: "nat \<Rightarrow> pattern \<Rightarrow> pattern" where
  "add_literal c (Literal l) = Literal (c # l)"
| "add_literal c Malformed = Malformed"
| "add_literal c Unsupported = Unsupported"

fun re_parse :: "str \<Rightarrow> pattern" where
  "re_parse [] = Literal []"
| "re_parse [c] =
     (if c = BACKSLASH then Malformed
      else if c \<in> SPECIAL_CHARS then Unsupported
      else Literal [c])"
| "re_parse (c # d # rest) =
     (if c = BACKSLASH then
        (if ascii_alnum d then Unsupported
         else add_literal d (re_parse rest))
      else if c \<in> SPECIAL_CHARS then Unsupported
      else add_literal c (re_parse (d # rest)))"

text \<open>
  \<^verbatim>\<open>re.subn\<close> for a literal pattern \<open>l\<close> and a literal replacement \<open>r\<close>: scan
  left to right; at a position where \<open>l\<close> matches, emit \<open>r\<close> and resume after the
  match; elsewhere copy one character.  After an empty match the scan must advance, so
  the character at the position is copied before the next search.  The second component
  counts the replacements made.
\<close>

function re_subn_literal :: "'a list \<Rightarrow> 'a list \<Rightarrow> 'a list \<Rightarrow> 'a list \<times> nat" where
  "re_subn_literal l r s =
     (if prefix l s then
        (if l = [] then
           (case s of
              [] \<Rightarrow> (r, 1)
            | c # cs \<Rightarrow> (let (t, n) = re_subn_literal l r cs in (r @ c # t, Suc n)))
         else (let (t, n) = re_subn_literal l r (drop (length l) s) in (r @ t, Suc n)))
      else
        (case s of
           [] \<Rightarrow> ([], 0)
         | c # cs \<Rightarrow> (let (t, n) = re_subn_literal l r cs in (c # t, n))))"
  by pat_completeness auto
termination
  by (relation "measure (\<lambda>(l, r, s). length s)") (auto simp: prefix_def)

declare re_subn_literal.simps [simp del]

definition re_sub_literal :: "'a list \<Rightarrow> 'a list \<Rightarrow> 'a list \<Rightarrow> 'a list" where
  "re_sub_literal l r s = fst (re_subn_literal l r s)"

text \<open>
  \<^verbatim>\<open>re.finditer\<close> for a literal pattern: the start offsets of the matches that the same
  scan finds, \<open>pos\<close> being the offset of \<open>s\<close> in the whole text.
\<close>

function re_finditer_literal :: "'a list \<Rightarrow> nat \<Rightarrow> 'a list \<Rightarrow> nat list" where
  "re_finditer_literal l pos s =
     (if prefix l s then
        (if l = [] then
           (case s of
              [] \<Rightarrow> [pos]
            | c # cs \<Rightarrow> pos # re_finditer_literal l (Suc pos) cs)
         else pos # re_finditer_literal l (pos + length l) (drop (length l) s))
      else
        (case s of
           [] \<Rightarrow> []
         | c # cs \<Rightarrow> re_finditer_literal l (Suc pos) cs))"
  by pat_completeness auto
termination
  by (relation "measure (\<lambda>(l, pos, s). length s)") (auto simp: prefix_def)

declare re_finditer_literal.simps [simp del]

text \<open>
  Replacement syntax, after \<^verbatim>\<open>parse_template\<close>.  A replacement without backslash is
  inserted as it is.  One with a backslash is a template: it is read from left to right, and
  its first backslash raises \<^verbatim>\<open>re.error\<close> (``bad escape'') when it ends the replacement
  or stands before an ASCII letter other than \<^verbatim>\<open>a b f n r t v g\<close>.  All other templates
  (character escapes, group references) are outside the fragment.
\<close>

datatype template = PlainText | BadEscape | UnsupportedTemplate

definition ascii_letter :: "nat \<Rightarrow> bool" where
  "ascii_letter c \<longleftrightarrow> (65 \<le> c \<and> c \<le> 90) \<or> (97 \<le> c \<and> c \<le> 122)"

fun parse_template :: "str \<Rightarrow> template" where
  "parse_template [] = PlainText"
| "parse_template [c] = (if c = BACKSLASH then BadEscape else PlainText)"
| "parse_template (c # d # rest) =
     (if c = BACKSLASH then
        (if ascii_letter d \<and> d \<notin> set (ascii ''abfnrtvg'') then BadEscape
         else UnsupportedTemplate)
      else parse_template (d # rest))"

text \<open>
  \<^verbatim>\<open>re.sub(pattern, repl, string)\<close>: the pattern is compiled first, then the replacement,
  each raising if it is malformed; only then is the string scanned.
\<close>

definition re_sub :: "str \<Rightarrow> str \<Rightarrow> str \<Rightarrow> str result" where
  "re_sub pattern repl string =
     (case re_parse pattern of
        Malformed \<Rightarrow> Raises PatternError
      | Unsupported \<Rightarrow> NotModelled
      | Literal l \<Rightarrow>
          (case parse_template repl of
             PlainText \<Rightarrow> Returns (re_sub_literal l repl string)
           | BadEscape \<Rightarrow> Raises PatternError
           | UnsupportedTemplate \<Rightarrow> NotModelled))"

section \<open>The script\<close>

definition target :: string where
  "target = ''src/lib/supabasePipeline.ts''"

text \<open>Rule 1: the guard of \<^verbatim>\<open>rpcDirect\<close>.\<close>

definition pattern1 :: str where
  "pattern1 =
     ascii ''if '' @ esc ''(!this'' @ esc ''.isInitialized '' @ esc ''|'' @ esc ''| !this''
     @ esc ''.supabaseUrl '' @ esc ''|'' @ esc ''| !this'' @ esc ''.supabaseAnonKey'' @ esc '')''"

definition repl1 :: str where
  "repl1 = ascii ''if (!this.isInitialized)''"

text \<open>Rule 2: the URL check of \<^verbatim>\<open>fastPathDirectUpsert\<close>.\<close>

definition pattern2 :: str where
  "pattern2 =
     ascii ''if '' @ esc ''(!this'' @ esc ''.supabaseUrl'' @ esc '') throw new Error''
     @ esc ''('' @ [BACKSLASH, QUOTE] @ ascii ''Supabase URL not set'' @ [BACKSLASH, QUOTE]
     @ esc '')'' @ ascii '';''"

definition repl2 :: str where
  "repl2 =
     ascii ''// PHASE 2: Get env vars directly instead of caching'' @ [LF]
     @ ascii ''    const supabaseUrl = import.meta.env.VITE_SUPABASE_URL || ''
     @ [QUOTE, QUOTE] @ ascii '';'' @ [LF]
     @ ascii ''    const supabaseAnonKey = import.meta.env.VITE_SUPABASE_ANON_KEY || ''
     @ [QUOTE, QUOTE] @ ascii '';'' @ [LF]
     @ ascii ''    if (!supabaseUrl) throw new Error('' @ [QUOTE] @ ascii ''Supabase URL not set''
     @ [QUOTE] @ ascii '');''"

definition message :: str where
  "message = 9989 # ascii '' Fixed supabaseUrl/supabaseAnonKey references!''"

text \<open>
  A file on disk: its bytes, and whether the process may open it for reading and for
  writing.  Bytes that are valid UTF-8 are represented by the text they decode to, other
  bytes as they are.
\<close>

datatype contents = Text str | Undecodable "nat list"

record disk_file =
  data :: contents
  readable :: bool
  writable :: bool

text \<open>
  The state of a run: the file system, the lines printed so far, the code points that the
  encoding of the standard output can encode, and the variable \<^verbatim>\<open>content\<close> (\<open>None\<close>
  while unassigned).
\<close>

record state =
  files :: "string \<rightharpoonup> disk_file"
  stdout :: "str list"
  stdout_encodes :: "nat \<Rightarrow> bool"
  content :: "str option"

datatype outcome = Finished | Uncaught py_error | Outside

text \<open>
  Reading in text mode with the default \<^verbatim>\<open>newline=None\<close> turns \<^verbatim>\<open>\r\n\<close> and a
  lone \<^verbatim>\<open>\r\<close> into \<^verbatim>\<open>\n\<close>.
\<close>

fun universal_newlines :: "str \<Rightarrow> str" where
  "universal_newlines [] = []"
| "universal_newlines [c] = (if c = CR then [LF] else [c])"
| "universal_newlines (c # d # rest) =
     (if c = CR then
        (if d = LF then LF # universal_newlines rest
         else LF # universal_newlines (d # rest))
      else c # universal_newlines (d # rest))"

text \<open>
  \<^verbatim>\<open>open(path, 'r', encoding='utf-8')\<close> and \<^verbatim>\<open>f.read()\<close>: opening fails for a missing
  or unreadable file, reading fails for bytes that are not UTF-8.  The file stays as it is.
\<close>

definition read_file :: "string \<Rightarrow> state \<Rightarrow> str result" where
  "read_file path st =
     (case files st path of
        None \<Rightarrow> Raises FileNotFoundError
      | Some f \<Rightarrow>
          if \<not> readable f then Raises PermissionError
          else (case data f of
                  Undecodable b \<Rightarrow> Raises UnicodeDecodeError
                | Text d \<Rightarrow> Returns (universal_newlines d)))"

text \<open>
  \<^verbatim>\<open>open(path, 'w', encoding='utf-8', newline='\n')\<close> and \<^verbatim>\<open>f.write(content)\<close>:
  opening fails, before anything is truncated, for a file that may not be written;
  otherwise the file is truncated and holds the text, untranslated.  A missing file is
  created (the script reaches the write only after it has read the file).  Faults of the
  storage device while the bytes are written are not modelled.
\<close>

definition write_file :: "string \<Rightarrow> str \<Rightarrow> state \<Rightarrow> state result" where
  "write_file path t st =
     (case files st path of
        None \<Rightarrow>
          Returns (st\<lparr>files := (files st)(path \<mapsto> \<lparr>data = Text t, readable = True, writable = True\<rparr>)\<rparr>)
      | Some f \<Rightarrow>
          if \<not> writable f then Raises PermissionError
          else Returns (st\<lparr>files := (files st)(path \<mapsto> f\<lparr>data := Text t\<rparr>)\<rparr>))"

text \<open>
  \<^verbatim>\<open>print(t)\<close>: the text is encoded for the standard output as a whole; a code point
  that the encoding lacks raises \<^verbatim>\<open>UnicodeEncodeError\<close> and nothing is printed.  (The line
  terminator is taken to be encodable.)
\<close>

definition print :: "str \<Rightarrow> state \<Rightarrow> state result" where
  "print t st =
     (if list_all (stdout_encodes st) t then Returns (st\<lparr>stdout := stdout st @ [t]\<rparr>)
      else Raises UnicodeEncodeError)"

definition raised :: "'a result \<Rightarrow> outcome" where
  "raised x = (case x of Raises e \<Rightarrow> Uncaught e | _ \<Rightarrow> Outside)"

text \<open>
  The script: read, substitute, substitute, write, print.  An exception ends the run where
  it is raised.
\<close>

definition script :: "state \<Rightarrow> outcome \<times> state" where
  "script st =
     (case read_file target st of
        Returns c0 \<Rightarrow>
          (let st1 = st\<lparr>content := Some c0\<rparr> in
           case re_sub pattern1 repl1 c0 of
             Returns c1 \<Rightarrow>
               (let st2 = st1\<lparr>content := Some c1\<rparr> in
                case re_sub pattern2 repl2 c1 of
                  Returns c2 \<Rightarrow>
                    (let st3 = st2\<lparr>content := Some c2\<rparr> in
                     case write_file target c2 st3 of
                       Returns st4 \<Rightarrow>
                         (case print message st4 of
                            Returns st5 \<Rightarrow> (Finished, st5)
                          | x \<Rightarrow> (raised x, st4))
                     | x \<Rightarrow> (raised x, st3))
                | x \<Rightarrow> (raised x, st2))
           | x \<Rightarrow> (raised x, st1))
      | x \<Rightarrow> (raised x, st))"

text \<open>The two rules on their own.\<close>

definition rule1 :: "str \<Rightarrow> str result" where
  "rule1 t = re_sub pattern1 repl1 t"

definition rule2 :: "str \<Rightarrow> str result" where
  "rule2 t = re_sub pattern2 repl2 t"

text \<open>The texts that the two patterns match.\<close>

definition guard1 :: str where
  "guard1 = ascii ''if (!this.isInitialized || !this.supabaseUrl || !this.supabaseAnonKey)''"

definition guard2 :: str where
  "guard2 =
     ascii ''if (!this.supabaseUrl) throw new Error('' @ [QUOTE] @ ascii ''Supabase URL not set''
     @ [QUOTE] @ ascii '');''"

text \<open>The in-memory transformation of the script: rule 1, then rule 2 on its result.\<close>

definition pipeline :: "str \<Rightarrow> str result" where
  "pipeline t =
     (case rule1 t of
        Returns t1 \<Rightarrow> rule2 t1
      | Raises e \<Rightarrow> Raises e
      | NotModelled \<Rightarrow> NotModelled)"

section \<open>Notions used to state the properties\<close>

text \<open>
  \<open>begins_in q b\<close>: an occurrence of \<open>q\<close> can begin inside \<open>b\<close>, that is, some
  non-empty end piece of \<open>b\<close> is a beginning of \<open>q\<close> or has \<open>q\<close> as a beginning.
\<close>

fun begins_in :: "'a list \<Rightarrow> 'a list \<Rightarrow> bool" where
  "begins_in q [] = False"
| "begins_in q (c # cs) = (prefix q (c # cs) \<or> prefix (c # cs) q \<or> begins_in q cs)"

text \<open>The offsets of all occurrences of \<open>l\<close> in a text, overlapping or not.\<close>

fun occurrences :: "'a list \<Rightarrow> nat \<Rightarrow> 'a list \<Rightarrow> nat list" where
  "occurrences l pos [] = []"
| "occurrences l pos (c # cs) =
     (if prefix l (c # cs) then pos # occurrences l (Suc pos) cs
      else occurrences l (Suc pos) cs)"

text \<open>The lines of a text, as \<^verbatim>\<open>str.split('\n')\<close> gives them.\<close>

fun text_lines :: "str \<Rightarrow> str list" where
  "text_lines [] = [[]]"
| "text_lines (c # cs) =
     (if c = LF then [] # text_lines cs
      else (case text_lines cs of [] \<Rightarrow> [[c]] | l # ls \<Rightarrow> (c # l) # ls))"

text \<open>
  Two encodings of the standard output: UTF-8, which encodes every code point but the
  surrogates, and ASCII.
\<close>

definition utf8_stdout :: "nat \<Rightarrow> bool" where
  "utf8_stdout c \<longleftrightarrow> c < 55296 \<or> (57343 < c \<and> c < 1114112)"

definition ascii_stdout :: "nat \<Rightarrow> bool" where
  "ascii_stdout c \<longleftrightarrow> c < 128"

section \<open>The patterns compile to literals\<close>

lemma re_parse_pattern1: "re_parse pattern1 = Literal guard1"
  by (simp add: pattern1_def guard1_def esc_def ascii_def BACKSLASH_def SPECIAL_CHARS_def
      ascii_alnum_def)

lemma re_parse_pattern2: "re_parse pattern2 = Literal guard2"
  by (simp add: pattern2_def guard2_def esc_def ascii_def BACKSLASH_def QUOTE_def
      SPECIAL_CHARS_def ascii_alnum_def)

lemma parse_template_plain: "BACKSLASH \<notin> set r \<Longrightarrow> parse_template r = PlainText"
  by (induction r rule: parse_template.induct) auto

lemma repl1_plain: "BACKSLASH \<notin> set repl1"
  by (simp add: repl1_def ascii_def BACKSLASH_def)

lemma repl2_plain: "BACKSLASH \<notin> set repl2"
  by (simp add: repl2_def ascii_def BACKSLASH_def LF_def QUOTE_def)

lemma rule1_returns: "rule1 t = Returns (re_sub_literal guard1 repl1 t)"
  by (simp add: rule1_def re_sub_def re_parse_pattern1 parse_template_plain [OF repl1_plain])

lemma rule2_returns: "rule2 t = Returns (re_sub_literal guard2 repl2 t)"
  by (simp add: rule2_def re_sub_def re_parse_pattern2 parse_template_plain [OF repl2_plain])

lemma pipeline_returns:
  "pipeline t = Returns (re_sub_literal guard2 repl2 (re_sub_literal guard1 repl1 t))"
  by (simp add: pipeline_def rule1_returns rule2_returns)

section \<open>The scan of a literal pattern\<close>

lemma sub_Nil: "l \<noteq> [] \<Longrightarrow> re_sub_literal l r [] = []"
  by (simp add: re_sub_literal_def re_subn_literal.simps [of l r "[]"])

lemma sub_match: "l \<noteq> [] \<Longrightarrow> re_sub_literal l r (l @ s) = r @ re_sub_literal l r s"
  by (simp add: re_sub_literal_def re_subn_literal.simps [of l r "l @ s"] split: prod.splits)

lemma sub_step:
  "\<not> prefix l (c # cs) \<Longrightarrow> re_sub_literal l r (c # cs) = c # re_sub_literal l r cs"
  by (simp add: re_sub_literal_def re_subn_literal.simps [of l r "c # cs"] split: prod.splits)

lemma sub_empty_pattern:
  "re_sub_literal [] r s = r @ concat (map (\<lambda>c. c # r) s)"
proof (induction s)
  case Nil
  show ?case by (simp add: re_sub_literal_def re_subn_literal.simps [of "[]" r "[]"])
next
  case (Cons c cs)
  then show ?case
    by (cases "re_subn_literal [] r cs")
      (simp add: re_sub_literal_def re_subn_literal.simps [of "[]" r "c # cs"])
qed

lemma scan_induct [consumes 1, case_names Nil Match Step]:
  assumes "l \<noteq> []"
    and "P []"
    and "\<And>s. P s \<Longrightarrow> P (l @ s)"
    and "\<And>c cs. \<not> prefix l (c # cs) \<Longrightarrow> P cs \<Longrightarrow> P (c # cs)"
  shows "P s"
proof (induction s rule: length_induct)
  case (1 s)
  show ?case
  proof (cases "prefix l s")
    case True
    then obtain s' where s: "s = l @ s'" by (auto simp: prefix_def)
    with \<open>l \<noteq> []\<close> have "length s' < length s" by simp
    with 1 have "P s'" by blast
    then show ?thesis unfolding s by (rule assms(3))
  next
    case False
    show ?thesis
    proof (cases s)
      case Nil
      then show ?thesis using assms(2) by simp
    next
      case (Cons c cs)
      with 1 have "P cs" by simp
      with False Cons show ?thesis using assms(4) by simp
    qed
  qed
qed

lemma begins_in_iff:
  "begins_in q b \<longleftrightarrow> (\<exists>x. x \<noteq> [] \<and> suffix x b \<and> (prefix q x \<or> prefix x q))"
proof (induction b)
  case Nil
  show ?case by simp
next
  case (Cons c cs)
  show ?case
  proof
    assume "begins_in q (c # cs)"
    then consider "prefix q (c # cs) \<or> prefix (c # cs) q" | "begins_in q cs" by auto
    then show "\<exists>x. x \<noteq> [] \<and> suffix x (c # cs) \<and> (prefix q x \<or> prefix x q)"
    proof cases
      case 1
      then show ?thesis by (intro exI [of _ "c # cs"]) simp
    next
      case 2
      with Cons obtain x where "x \<noteq> []" "suffix x cs" "prefix q x \<or> prefix x q" by blast
      then show ?thesis by (intro exI [of _ x]) (simp add: suffix_ConsI)
    qed
  next
    assume "\<exists>x. x \<noteq> [] \<and> suffix x (c # cs) \<and> (prefix q x \<or> prefix x q)"
    then obtain x where x: "x \<noteq> []" "suffix x (c # cs)" "prefix q x \<or> prefix x q" by blast
    from x(2) consider "x = c # cs" | "suffix x cs" by (auto simp: suffix_Cons)
    then show "begins_in q (c # cs)"
    proof cases
      case 1
      with x(3) show ?thesis by auto
    next
      case 2
      with x Cons have "begins_in q cs" by blast
      then show ?thesis by simp
    qed
  qed
qed

lemma prefix_append_cases:
  "prefix q (x @ y) \<Longrightarrow> prefix q x \<or> prefix x q"
  using prefix_same_cases [of q "x @ y" x] by simp

lemma sub_skip:
  "\<not> begins_in l x \<Longrightarrow> re_sub_literal l r (x @ y) = x @ re_sub_literal l r y"
proof (induction x)
  case Nil
  show ?case by simp
next
  case (Cons c cs)
  then have "\<not> prefix l (c # cs @ y)"
    using prefix_append_cases [of l "c # cs" y] by auto
  with Cons show ?case by (simp add: sub_step)
qed

lemma sub_noop: "\<not> sublist l s \<Longrightarrow> re_sub_literal l r s = s"
proof (induction s)
  case Nil
  then have "l \<noteq> []" by auto
  then show ?case by (rule sub_Nil)
next
  case (Cons c cs)
  then show ?case by (simp add: sublist_Cons_right sub_step)
qed


lemma not_begins_inD:
  "\<not> begins_in q b \<Longrightarrow> x \<noteq> [] \<Longrightarrow> suffix x b \<Longrightarrow> \<not> prefix q x \<and> \<not> prefix x q"
  by (auto simp: begins_in_iff)

text \<open>A part of \<open>q\<close> that stands at the head of the output stood at the head of the input.\<close>

lemma prefix_sub_imp_prefix:
  assumes "l \<noteq> []" and "\<not> begins_in r q"
  shows "suffix q' q \<Longrightarrow> prefix q' (re_sub_literal l r s) \<Longrightarrow> prefix q' s"
  using assms(1)
proof (induction s arbitrary: q' rule: scan_induct)
  case Nil
  then show ?case using assms(1) by (simp add: sub_Nil)
next
  case (Match s)
  show ?case
  proof (cases "q' = []")
    case True
    then show ?thesis by simp
  next
    case False
    from Match.prems(2) have "prefix q' (r @ re_sub_literal l r s)"
      using assms(1) by (simp add: sub_match)
    then have "prefix q' r \<or> prefix r q'" by (rule prefix_append_cases)
    with not_begins_inD [OF assms(2) False Match.prems(1)] show ?thesis by blast
  qed
next
  case (Step c cs)
  show ?case
  proof (cases q')
    case Nil
    then show ?thesis by simp
  next
    case (Cons d q'')
    from Step.prems(2) Step.hyps have "prefix (d # q'') (c # re_sub_literal l r cs)"
      by (simp add: sub_step Cons)
    then have d: "d = c" and p: "prefix q'' (re_sub_literal l r cs)" by simp_all
    from Step.prems(1) Cons have "suffix q'' q" by (auto dest: suffix_ConsD)
    from Step.IH [OF this p] d Cons show ?thesis by simp
  qed
qed

lemma sublist_append_skip:
  "\<not> begins_in q x \<Longrightarrow> sublist q (x @ y) \<Longrightarrow> sublist q y"
proof (induction x)
  case Nil
  then show ?case by simp
next
  case (Cons c cs)
  from Cons.prems(1) have "\<not> prefix q (c # cs @ y)"
    using prefix_append_cases [of q "c # cs" y] by auto
  with Cons show ?case by (simp add: sublist_Cons_right)
qed

text \<open>Substitution creates no occurrence of \<open>q\<close> when \<open>q\<close> and the replacement cannot overlap.\<close>

lemma sublist_sub_imp_sublist:
  assumes "l \<noteq> []" and "\<not> begins_in q r" and "\<not> begins_in r q"
  shows "sublist q (re_sub_literal l r s) \<Longrightarrow> sublist q s"
  using assms(1)
proof (induction s rule: scan_induct)
  case Nil
  then show ?case using assms(1) by (simp add: sub_Nil)
next
  case (Match s)
  then have "sublist q (r @ re_sub_literal l r s)" using assms(1) by (simp add: sub_match)
  then have "sublist q (re_sub_literal l r s)" by (rule sublist_append_skip [OF assms(2)])
  with Match.IH have "sublist q s" by blast
  then show ?case by (auto simp: sublist_append)
next
  case (Step c cs)
  then have "sublist q (c # re_sub_literal l r cs)" by (simp add: sub_step)
  then consider "prefix q (c # re_sub_literal l r cs)" | "sublist q (re_sub_literal l r cs)"
    by (auto simp: sublist_Cons_right)
  then show ?case
  proof cases
    case 1
    with Step.hyps have "prefix q (re_sub_literal l r (c # cs))" by (simp add: sub_step)
    then have "prefix q (c # cs)"
      by (rule prefix_sub_imp_prefix [OF assms(1) assms(3) suffix_order.refl])
    then show ?thesis by (simp add: sublist_Cons_right)
  next
    case 2
    with Step.IH show ?thesis by (simp add: sublist_Cons_right)
  qed
qed

text \<open>After the substitution the pattern itself no longer occurs.\<close>

lemma not_sublist_sub:
  assumes "l \<noteq> []" and "\<not> begins_in l r" and "\<not> begins_in r l"
  shows "\<not> sublist l (re_sub_literal l r s)"
  using assms(1)
proof (induction s rule: scan_induct)
  case Nil
  then show ?case using assms(1) by (simp add: sub_Nil)
next
  case (Match s)
  then show ?case
    using assms(1) sublist_append_skip [OF assms(2), of "re_sub_literal l r s"]
    by (auto simp: sub_match)
next
  case (Step c cs)
  have "\<not> prefix l (re_sub_literal l r (c # cs))"
    using prefix_sub_imp_prefix [OF assms(1) assms(3) suffix_order.refl, of "c # cs"] Step.hyps
    by blast
  with Step show ?case by (simp add: sub_step sublist_Cons_right)
qed

text \<open>A pattern that cannot overlap itself: every occurrence is replaced.\<close>

lemma sub_split:
  assumes "l \<noteq> []" and "\<not> begins_in l (tl l)"
  shows "re_sub_literal l r (a @ l @ b) = re_sub_literal l r a @ r @ re_sub_literal l r b"
  using assms(1)
proof (induction a rule: scan_induct)
  case Nil
  then show ?case using assms(1) by (simp add: sub_match sub_Nil)
next
  case (Match a)
  then show ?case using assms(1) by (simp add: sub_match)
next
  case (Step c cs)
  have "\<not> prefix l ((c # cs) @ l @ b)"
  proof
    assume p: "prefix l ((c # cs) @ l @ b)"
    then have "prefix l (c # cs) \<or> prefix (c # cs) l" by (rule prefix_append_cases)
    with Step.hyps obtain x where l: "l = (c # cs) @ x" by (auto simp: prefix_def)
    with Step.hyps have x: "x \<noteq> []" by auto
    from p l have "prefix x (l @ b)" by simp
    moreover have "length x \<le> length l" using l by simp
    ultimately have "prefix x l" by (metis prefix_length_prefix prefix_prefix prefix_order.refl)
    moreover have "suffix x (tl l)" using l by (simp add: suffix_def)
    ultimately show False using not_begins_inD [OF assms(2) x] by blast
  qed
  with Step show ?case by (simp add: sub_step)
qed


lemma sub_commute:
  assumes ne: "l1 \<noteq> []" "l2 \<noteq> []"
    and a: "\<not> begins_in l2 r1" "\<not> begins_in r1 l2" "\<not> begins_in l2 l1"
    and b: "\<not> begins_in l1 r2" "\<not> begins_in r2 l1" "\<not> begins_in l1 l2"
  shows "re_sub_literal l2 r2 (re_sub_literal l1 r1 s) =
         re_sub_literal l1 r1 (re_sub_literal l2 r2 s)"
proof (induction s rule: length_induct)
  case (1 s)
  consider (first) s' where "s = l1 @ s'" | (second) s' where "s = l2 @ s'"
    | (empty) "s = []" | (neither) c cs where "s = c # cs" "\<not> prefix l1 s" "\<not> prefix l2 s"
    by (cases s) (auto simp: prefix_def)
  then show ?case
  proof cases
    case first
    with ne have "length s' < length s" by simp
    with 1 have IH: "re_sub_literal l2 r2 (re_sub_literal l1 r1 s') =
         re_sub_literal l1 r1 (re_sub_literal l2 r2 s')" by blast
    have "re_sub_literal l2 r2 (re_sub_literal l1 r1 s) =
          r1 @ re_sub_literal l2 r2 (re_sub_literal l1 r1 s')"
      using ne a(1) first by (simp add: sub_match sub_skip)
    moreover have "re_sub_literal l1 r1 (re_sub_literal l2 r2 s) =
          r1 @ re_sub_literal l1 r1 (re_sub_literal l2 r2 s')"
      using ne a(3) first by (simp add: sub_match sub_skip)
    ultimately show ?thesis using IH by simp
  next
    case second
    with ne have "length s' < length s" by simp
    with 1 have IH: "re_sub_literal l2 r2 (re_sub_literal l1 r1 s') =
         re_sub_literal l1 r1 (re_sub_literal l2 r2 s')" by blast
    have "re_sub_literal l2 r2 (re_sub_literal l1 r1 s) =
          r2 @ re_sub_literal l2 r2 (re_sub_literal l1 r1 s')"
      using ne b(3) second by (simp add: sub_match sub_skip)
    moreover have "re_sub_literal l1 r1 (re_sub_literal l2 r2 s) =
          r2 @ re_sub_literal l1 r1 (re_sub_literal l2 r2 s')"
      using ne b(1) second by (simp add: sub_match sub_skip)
    ultimately show ?thesis using IH by simp
  next
    case empty
    with ne show ?thesis by (simp add: sub_Nil)
  next
    case neither
    with 1 have IH: "re_sub_literal l2 r2 (re_sub_literal l1 r1 cs) =
         re_sub_literal l1 r1 (re_sub_literal l2 r2 cs)" by simp
    have "\<not> prefix l2 (re_sub_literal l1 r1 s)"
      using prefix_sub_imp_prefix [OF ne(1) a(2) suffix_order.refl] neither(3) by blast
    then have "re_sub_literal l2 r2 (re_sub_literal l1 r1 s) =
          c # re_sub_literal l2 r2 (re_sub_literal l1 r1 cs)"
      using neither by (simp add: sub_step)
    moreover have "\<not> prefix l1 (re_sub_literal l2 r2 s)"
      using prefix_sub_imp_prefix [OF ne(2) b(2) suffix_order.refl] neither(2) by blast
    then have "re_sub_literal l1 r1 (re_sub_literal l2 r2 s) =
          c # re_sub_literal l1 r1 (re_sub_literal l2 r2 cs)"
      using neither by (simp add: sub_step)
    ultimately show ?thesis using IH by simp
  qed
qed

lemma subn_count_finditer:
  "snd (re_subn_literal l r s) = length (re_finditer_literal l pos s)"
proof (induction l r s arbitrary: pos rule: re_subn_literal.induct)
  case (1 l r s)
  show ?case
  proof (cases "prefix l s")
    case True
    note pre = this
    show ?thesis
    proof (cases "l = []")
      case True
      show ?thesis
      proof (cases s)
        case Nil
        with True show ?thesis
          by (subst re_subn_literal.simps, subst re_finditer_literal.simps) simp
      next
        case (Cons c cs)
        with True pre "1.IH"(1) [of c cs "Suc pos"] show ?thesis
          by (subst re_subn_literal.simps, subst re_finditer_literal.simps)
            (auto split: prod.splits)
      qed
    next
      case False
      with pre "1.IH"(2) [of "pos + length l"] show ?thesis
        by (subst re_subn_literal.simps, subst re_finditer_literal.simps)
          (auto split: prod.splits)
    qed
  next
    case False
    show ?thesis
    proof (cases s)
      case Nil
      with False show ?thesis
        by (subst re_subn_literal.simps, subst re_finditer_literal.simps) simp
    next
      case (Cons c cs)
      with False "1.IH"(3) [of c cs "Suc pos"] show ?thesis
        by (subst re_subn_literal.simps, subst re_finditer_literal.simps)
          (auto split: prod.splits)
    qed
  qed
qed

lemma finditer_Nil: "l \<noteq> [] \<Longrightarrow> re_finditer_literal l pos [] = []"
  by (simp add: re_finditer_literal.simps [of l pos "[]"])

lemma finditer_match:
  "l \<noteq> [] \<Longrightarrow> re_finditer_literal l pos (l @ s) = pos # re_finditer_literal l (pos + length l) s"
  by (simp add: re_finditer_literal.simps [of l pos "l @ s"])

lemma finditer_step:
  "\<not> prefix l (c # cs) \<Longrightarrow> re_finditer_literal l pos (c # cs) = re_finditer_literal l (Suc pos) cs"
  by (simp add: re_finditer_literal.simps [of l pos "c # cs"])

lemma occurrences_skip:
  "\<not> begins_in l x \<Longrightarrow> occurrences l pos (x @ y) = occurrences l (pos + length x) y"
proof (induction x arbitrary: pos)
  case Nil
  show ?case by simp
next
  case (Cons c cs)
  then have "\<not> prefix l (c # cs @ y)"
    using prefix_append_cases [of l "c # cs" y] by auto
  with Cons show ?case by simp
qed

text \<open>For a pattern that cannot overlap itself the scan finds every occurrence.\<close>

lemma finditer_occurrences:
  assumes "l \<noteq> []" and "\<not> begins_in l (tl l)"
  shows "re_finditer_literal l pos s = occurrences l pos s"
  using assms(1)
proof (induction s arbitrary: pos rule: scan_induct)
  case Nil
  then show ?case using assms(1) by (simp add: finditer_Nil)
next
  case (Match s)
  from assms(1) obtain c cs where l: "l = c # cs" by (cases l) auto
  have "occurrences l pos (l @ s) = pos # occurrences l (Suc pos) (cs @ s)"
    by (simp add: l)
  also have "occurrences l (Suc pos) (cs @ s) = occurrences l (pos + length l) s"
    using occurrences_skip [of l cs "Suc pos" s] assms(2) by (simp add: l)
  finally show ?case using Match assms(1) by (simp add: finditer_match)
next
  case (Step c cs)
  then show ?case by (simp add: finditer_step)
qed

section \<open>The texts of the two rules cannot overlap\<close>

lemma guard1_ne: "guard1 \<noteq> []"
  by (simp add: guard1_def ascii_def)

lemma guard2_ne: "guard2 \<noteq> []"
  by (simp add: guard2_def ascii_def)

lemmas rule_texts = guard1_def guard2_def repl1_def repl2_def ascii_def LF_def QUOTE_def

lemma guard1_unbordered: "\<not> begins_in guard1 (tl guard1)"
  by (simp add: rule_texts)

lemma guard2_unbordered: "\<not> begins_in guard2 (tl guard2)"
  by (simp add: rule_texts)

lemma guard1_repl1: "\<not> begins_in guard1 repl1" and repl1_guard1: "\<not> begins_in repl1 guard1"
  by (simp_all add: rule_texts)

lemma guard2_repl2: "\<not> begins_in guard2 repl2" and repl2_guard2: "\<not> begins_in repl2 guard2"
  by (simp_all add: rule_texts)

lemma guard1_repl2: "\<not> begins_in guard1 repl2" and repl2_guard1: "\<not> begins_in repl2 guard1"
  by (simp_all add: rule_texts)

lemma guard2_repl1: "\<not> begins_in guard2 repl1" and repl1_guard2: "\<not> begins_in repl1 guard2"
  by (simp_all add: rule_texts)

lemma guard1_guard2: "\<not> begins_in guard1 guard2" and guard2_guard1: "\<not> begins_in guard2 guard1"
  by (simp_all add: rule_texts)

section \<open>The run of the script\<close>

lemma universal_newlines_id: "CR \<notin> set t \<Longrightarrow> universal_newlines t = t"
  by (induction t rule: universal_newlines.induct) auto

lemma sub_self: "l \<noteq> [] \<Longrightarrow> re_sub_literal l r l = r"
  using sub_match [of l r "[]"] by (simp add: sub_Nil)

text \<open>The run on a file that can be read, by what the write and the print meet.\<close>

lemma script_run:
  assumes "files st target = Some f" and "readable f" and "data f = Text d"
  shows "script st =
    (let w = re_sub_literal guard2 repl2 (re_sub_literal guard1 repl1 (universal_newlines d)) in
     if \<not> writable f then (Uncaught PermissionError, st\<lparr>content := Some w\<rparr>)
     else if \<not> list_all (stdout_encodes st) message then
       (Uncaught UnicodeEncodeError,
        st\<lparr>files := (files st)(target \<mapsto> f\<lparr>data := Text w\<rparr>), content := Some w\<rparr>)
     else
       (Finished,
        st\<lparr>files := (files st)(target \<mapsto> f\<lparr>data := Text w\<rparr>),
           stdout := stdout st @ [message], content := Some w\<rparr>))"
  using assms rule1_returns [of "universal_newlines d"]
    rule2_returns [of "re_sub_literal guard1 repl1 (universal_newlines d)"]
  by (simp add: script_def read_file_def write_file_def print_def raised_def rule1_def rule2_def
      Let_def)

lemma script_missing:
  "files st target = None \<Longrightarrow> script st = (Uncaught FileNotFoundError, st)"
  by (simp add: script_def read_file_def raised_def)

lemma script_unreadable:
  "files st target = Some f \<Longrightarrow> \<not> readable f \<Longrightarrow> script st = (Uncaught PermissionError, st)"
  by (simp add: script_def read_file_def raised_def)

lemma script_undecodable:
  "files st target = Some f \<Longrightarrow> readable f \<Longrightarrow> data f = Undecodable b \<Longrightarrow>
     script st = (Uncaught UnicodeDecodeError, st)"
  by (simp add: script_def read_file_def raised_def)

lemma script_cases:
  obtains (missing) "files st target = None"
  | (unreadable) f where "files st target = Some f" "\<not> readable f"
  | (undecodable) f b where "files st target = Some f" "readable f" "data f = Undecodable b"
  | (read) f d where "files st target = Some f" "readable f" "data f = Text d"
proof (cases "files st target")
  case None
  then show ?thesis by (rule missing)
next
  case (Some f)
  show ?thesis
  proof (cases "readable f")
    case False
    with Some show ?thesis by (rule unreadable)
  next
    case True
    with Some show ?thesis by (cases "data f") (auto intro: undecodable read)
  qed
qed

lemma message_utf8: "list_all utf8_stdout message"
  by (simp add: message_def ascii_def utf8_stdout_def)

lemma message_not_ascii: "\<not> list_all ascii_stdout message"
  by (simp add: message_def ascii_stdout_def)

lemma script_writes_pipeline:
  assumes "files st target = Some f" and "readable f" and "data f = Text d" and "writable f"
  shows "pipeline (universal_newlines d) = Returns u \<Longrightarrow>
    files (snd (script st)) target = Some (f\<lparr>data := Text u\<rparr>)"
  using assms by (auto simp: script_run [OF assms(1-3)] pipeline_returns Let_def)

section \<open>Worked example\<close>

lemma no_CR_example: "CR \<notin> set (guard1 @ LF # guard2)"
  by (simp add: rule_texts CR_def)

lemma guard1_not_in_guard2_line: "\<not> sublist guard1 (LF # guard2)"
  by (simp add: rule_texts sublist_code)

lemma sub1_example: "re_sub_literal guard1 repl1 (guard1 @ LF # guard2) = repl1 @ LF # guard2"
  using guard1_ne guard1_not_in_guard2_line by (simp add: sub_match sub_noop)

lemma sub2_example: "re_sub_literal guard2 repl2 (repl1 @ LF # guard2) = repl1 @ LF # repl2"
proof -
  have "\<not> prefix guard2 (LF # guard2)" by (simp add: rule_texts)
  then have "re_sub_literal guard2 repl2 (LF # guard2) = LF # repl2"
    using guard2_ne by (simp add: sub_step sub_self)
  then show ?thesis using guard2_repl1 by (simp add: sub_skip)
qed

lemma no_CR_guard1: "CR \<notin> set guard1"
  by (simp add: rule_texts CR_def)

lemma no_CR_repl1: "CR \<notin> set repl1"
  by (simp add: rule_texts CR_def)

lemma guard1_not_in_repl1: "\<not> sublist guard1 repl1"
  by (simp add: rule_texts sublist_code)

lemma guard2_not_in_repl1: "\<not> sublist guard2 repl1"
  by (simp add: rule_texts sublist_code)

lemma repl1_not_guard1: "repl1 \<noteq> guard1"
  by (simp add: rule_texts)

lemma lines_repl2:
  "text_lines repl2 =
     [ascii ''// PHASE 2: Get env vars directly instead of caching'',
      ascii ''    const supabaseUrl = import.meta.env.VITE_SUPABASE_URL || '' @ [QUOTE, QUOTE]
        @ ascii '';'',
      ascii ''    const supabaseAnonKey = import.meta.env.VITE_SUPABASE_ANON_KEY || ''
        @ [QUOTE, QUOTE] @ ascii '';'',
      ascii ''    if (!supabaseUrl) throw new Error('' @ [QUOTE] @ ascii ''Supabase URL not set''
        @ [QUOTE] @ ascii '');'']"
  by (simp add: rule_texts)

section \<open>The claims\<close>

text \<open>
  C1.  The script applies the two rules in declaration order to one threaded text: for the
  text \<open>T\<close> read from the file, the text that the run holds after the substitutions, and
  writes, is rule 2 applied to the result of rule 1 on \<open>T\<close>.
\<close>

theorem rules_applied_in_declaration_order:
  assumes "files st target = Some f" and "readable f" and "data f = Text d"
  shows "rule1 (universal_newlines d) = Returns (re_sub_literal guard1 repl1 (universal_newlines d))
    \<and> rule2 (re_sub_literal guard1 repl1 (universal_newlines d)) =
        Returns (re_sub_literal guard2 repl2 (re_sub_literal guard1 repl1 (universal_newlines d)))
    \<and> content (snd (script st)) =
        Some (re_sub_literal guard2 repl2 (re_sub_literal guard1 repl1 (universal_newlines d)))
    \<and> (writable f \<longrightarrow>
          files (snd (script st)) =
            (files st)(target \<mapsto> f\<lparr>data := Text
               (re_sub_literal guard2 repl2 (re_sub_literal guard1 repl1 (universal_newlines d)))\<rparr>))
    \<and> (writable f \<and> list_all (stdout_encodes st) message \<longrightarrow>
          script st =
            (Finished,
             st\<lparr>files := (files st)(target \<mapsto> f\<lparr>data := Text
                   (re_sub_literal guard2 repl2 (re_sub_literal guard1 repl1 (universal_newlines d)))\<rparr>),
                stdout := stdout st @ [message],
                content := Some
                   (re_sub_literal guard2 repl2 (re_sub_literal guard1 repl1 (universal_newlines d)))\<rparr>))"
  by (simp add: script_run [OF assms] rule1_returns rule2_returns Let_def)

theorem rules_applied_in_declaration_order_witness:
  "script
     \<lparr>files = [target \<mapsto> \<lparr>data = Text (guard1 @ LF # guard2), readable = True, writable = True\<rparr>],
      stdout = [], stdout_encodes = utf8_stdout, content = None\<rparr>
   = (Finished,
      \<lparr>files = [target \<mapsto> \<lparr>data = Text (repl1 @ LF # repl2), readable = True, writable = True\<rparr>],
       stdout = [message], stdout_encodes = utf8_stdout, content = Some (repl1 @ LF # repl2)\<rparr>)"
  using rules_applied_in_declaration_order
    [of "\<lparr>files = [target \<mapsto> \<lparr>data = Text (guard1 @ LF # guard2), readable = True,
            writable = True\<rparr>],
          stdout = [], stdout_encodes = utf8_stdout, content = None\<rparr>"
        "\<lparr>data = Text (guard1 @ LF # guard2), readable = True, writable = True\<rparr>"
        "guard1 @ LF # guard2"]
  by (simp add: universal_newlines_id [OF no_CR_example] sub1_example sub2_example message_utf8)

text \<open>
  C2.  As stated (the matched line is replaced by exactly three lines) the claim fails: the
  replacement of rule 2 has four lines, a comment line before the two declarations and the
  guard.
\<close>

theorem url_check_three_lines_counterexample:
  "rule2 guard2 = Returns repl2 \<and> text_lines guard2 = [guard2]
   \<and> length (text_lines repl2) = 4 \<and> length (text_lines repl2) \<noteq> 3"
  using guard2_ne by (simp add: rule2_returns sub_self lines_repl2) (simp add: rule_texts)

text \<open>
  C2, amended.  Rule 2 replaces an occurrence of the URL-check line by a block of exactly four
  lines (a comment, two declarations of local values, the modified guard); the text before
  and after it is rewritten by the same rule, hence preserved verbatim when it holds no
  further occurrence.
\<close>

theorem url_check_replaced_by_four_lines:
  assumes "\<not> sublist guard2 a" and "\<not> sublist guard2 b"
  shows "rule2 (a @ guard2 @ b) = Returns (a @ repl2 @ b)
    \<and> text_lines guard2 = [guard2]
    \<and> text_lines repl2 =
        [ascii ''// PHASE 2: Get env vars directly instead of caching'',
         ascii ''    const supabaseUrl = import.meta.env.VITE_SUPABASE_URL || '' @ [QUOTE, QUOTE]
           @ ascii '';'',
         ascii ''    const supabaseAnonKey = import.meta.env.VITE_SUPABASE_ANON_KEY || ''
           @ [QUOTE, QUOTE] @ ascii '';'',
         ascii ''    if (!supabaseUrl) throw new Error('' @ [QUOTE] @ ascii ''Supabase URL not set''
           @ [QUOTE] @ ascii '');'']"
proof -
  have "rule2 (a @ guard2 @ b) = Returns (a @ repl2 @ b)"
    using assms by (simp add: rule2_returns sub_split [OF guard2_ne guard2_unbordered] sub_noop)
  moreover have "text_lines guard2 = [guard2]" by (simp add: rule_texts)
  ultimately show ?thesis using lines_repl2 by simp
qed

theorem url_check_replaced_by_four_lines_witness:
  "\<not> sublist guard2 (ascii ''  '') \<and> \<not> sublist guard2 [LF]
   \<and> rule2 (ascii ''  '' @ guard2 @ [LF]) = Returns (ascii ''  '' @ repl2 @ [LF])
   \<and> length (text_lines repl2) = 4"
proof -
  have a: "\<not> sublist guard2 (ascii ''  '')" by (simp add: rule_texts sublist_code)
  have b: "\<not> sublist guard2 [LF]" by (simp add: rule_texts sublist_code)
  from url_check_replaced_by_four_lines [OF a b] a b show ?thesis by simp
qed

text \<open>
  C4.  As stated (on any fatal error the file on disk is as before the run) the claim
  fails: the confirmation is printed after the write, and when the standard output cannot
  encode the message the run ends in \<open>UnicodeEncodeError\<close> with the file already rewritten.
\<close>

theorem failure_leaves_file_unchanged_counterexample:
  "script
     \<lparr>files = [target \<mapsto> \<lparr>data = Text guard1, readable = True, writable = True\<rparr>],
      stdout = [], stdout_encodes = ascii_stdout, content = None\<rparr>
   = (Uncaught UnicodeEncodeError,
      \<lparr>files = [target \<mapsto> \<lparr>data = Text repl1, readable = True, writable = True\<rparr>],
       stdout = [], stdout_encodes = ascii_stdout, content = Some repl1\<rparr>)
   \<and> Text repl1 \<noteq> Text guard1"
  using script_run
    [of "\<lparr>files = [target \<mapsto> \<lparr>data = Text guard1, readable = True, writable = True\<rparr>],
          stdout = [], stdout_encodes = ascii_stdout, content = None\<rparr>"
        "\<lparr>data = Text guard1, readable = True, writable = True\<rparr>" guard1]
    guard1_ne
  by (simp add: universal_newlines_id [OF no_CR_guard1] sub_self sub_noop [OF guard2_not_in_repl1]
      message_not_ascii repl1_not_guard1)

text \<open>
  C4, amended.  On a fatal error raised before the write (the target is missing, may not
  be read, is not valid UTF-8, or may not be written) the files on disk are after the run
  as they were before it: the write is reached only after both substitutions have returned
  in memory.  No run fails on a matcher, since both matchers of the script compile, and no
  failing run prints anything.  The one error raised after the write, by the print, leaves
  the file rewritten.
\<close>

theorem failure_before_write_leaves_file_unchanged:
  assumes "fst (script st) = Uncaught e"
  shows "(e \<noteq> UnicodeEncodeError \<longrightarrow> files (snd (script st)) = files st)
    \<and> stdout (snd (script st)) = stdout st
    \<and> e \<noteq> PatternError"
proof (cases st rule: script_cases)
  case missing
  with assms show ?thesis by (auto simp: script_missing)
next
  case (unreadable f)
  with assms show ?thesis by (auto simp: script_unreadable)
next
  case (undecodable f b)
  with assms show ?thesis by (auto simp: script_undecodable)
next
  case (read f d)
  with assms show ?thesis by (auto simp: script_run Let_def split: if_splits)
qed

theorem failure_before_write_leaves_file_unchanged_witness:
  "fst (script
      \<lparr>files = [target \<mapsto> \<lparr>data = Text guard1, readable = False, writable = True\<rparr>],
       stdout = [], stdout_encodes = utf8_stdout, content = None\<rparr>) = Uncaught PermissionError
   \<and> files (snd (script
      \<lparr>files = [target \<mapsto> \<lparr>data = Text guard1, readable = False, writable = True\<rparr>],
       stdout = [], stdout_encodes = utf8_stdout, content = None\<rparr>))
     = [target \<mapsto> \<lparr>data = Text guard1, readable = False, writable = True\<rparr>]
   \<and> fst (script
      \<lparr>files = [target \<mapsto> \<lparr>data = Undecodable [255], readable = True, writable = True\<rparr>],
       stdout = [], stdout_encodes = utf8_stdout, content = None\<rparr>) = Uncaught UnicodeDecodeError
   \<and> files (snd (script
      \<lparr>files = [target \<mapsto> \<lparr>data = Undecodable [255], readable = True, writable = True\<rparr>],
       stdout = [], stdout_encodes = utf8_stdout, content = None\<rparr>))
     = [target \<mapsto> \<lparr>data = Undecodable [255], readable = True, writable = True\<rparr>]
   \<and> fst (script
      \<lparr>files = [target \<mapsto> \<lparr>data = Text guard1, readable = True, writable = False\<rparr>],
       stdout = [], stdout_encodes = utf8_stdout, content = None\<rparr>) = Uncaught PermissionError
   \<and> files (snd (script
      \<lparr>files = [target \<mapsto> \<lparr>data = Text guard1, readable = True, writable = False\<rparr>],
       stdout = [], stdout_encodes = utf8_stdout, content = None\<rparr>))
     = [target \<mapsto> \<lparr>data = Text guard1, readable = True, writable = False\<rparr>]"
proof -
  have a: "fst (script
      \<lparr>files = [target \<mapsto> \<lparr>data = Text guard1, readable = False, writable = True\<rparr>],
       stdout = [], stdout_encodes = utf8_stdout, content = None\<rparr>) = Uncaught PermissionError"
    by (simp add: script_unreadable
        [of _ "\<lparr>data = Text guard1, readable = False, writable = True\<rparr>"])
  have b: "fst (script
      \<lparr>files = [target \<mapsto> \<lparr>data = Undecodable [255], readable = True, writable = True\<rparr>],
       stdout = [], stdout_encodes = utf8_stdout, content = None\<rparr>) = Uncaught UnicodeDecodeError"
    by (simp add: script_undecodable
        [of _ "\<lparr>data = Undecodable [255], readable = True, writable = True\<rparr>" "[255]"])
  have c: "fst (script
      \<lparr>files = [target \<mapsto> \<lparr>data = Text guard1, readable = True, writable = False\<rparr>],
       stdout = [], stdout_encodes = utf8_stdout, content = None\<rparr>) = Uncaught PermissionError"
    by (simp add: script_run
        [of _ "\<lparr>data = Text guard1, readable = True, writable = False\<rparr>" guard1])
  show ?thesis
    using failure_before_write_leaves_file_unchanged [OF a]
      failure_before_write_leaves_file_unchanged [OF b]
      failure_before_write_leaves_file_unchanged [OF c] a b c
    by simp
qed

text \<open>
  C5.  Rule 1 turns the guard text into the shortened guard; every occurrence of the guard
  in a document is rewritten, and none is left in the result.
\<close>

theorem guard_rewritten_everywhere:
  "rule1 (ascii ''if (!this.isInitialized || !this.supabaseUrl || !this.supabaseAnonKey)'')
     = Returns (ascii ''if (!this.isInitialized)'')
   \<and> rule1 t = Returns (re_sub_literal guard1 repl1 t)
   \<and> re_sub_literal guard1 repl1 (a @ guard1 @ b)
     = re_sub_literal guard1 repl1 a @ repl1 @ re_sub_literal guard1 repl1 b
   \<and> \<not> sublist guard1 (re_sub_literal guard1 repl1 t)"
proof -
  have "rule1 guard1 = Returns repl1"
    using guard1_ne by (simp add: rule1_returns sub_self)
  then have "rule1 (ascii ''if (!this.isInitialized || !this.supabaseUrl || !this.supabaseAnonKey)'')
     = Returns (ascii ''if (!this.isInitialized)'')"
    by (simp add: guard1_def repl1_def)
  moreover note rule1_returns [of t]
    sub_split [OF guard1_ne guard1_unbordered, of repl1 a b]
    not_sublist_sub [OF guard1_ne guard1_repl1 repl1_guard1, of t]
  ultimately show ?thesis by blast
qed

theorem guard_rewritten_everywhere_witness:
  "rule1 (guard1 @ LF # guard2) = Returns (repl1 @ LF # guard2)
   \<and> \<not> sublist guard1 (repl1 @ LF # guard2)"
proof -
  from guard_rewritten_everywhere [of "guard1 @ LF # guard2" "[]" "[]"]
  have "rule1 (guard1 @ LF # guard2) = Returns (re_sub_literal guard1 repl1 (guard1 @ LF # guard2))"
    and "\<not> sublist guard1 (re_sub_literal guard1 repl1 (guard1 @ LF # guard2))"
    by blast+
  then show ?thesis by (simp add: sub1_example)
qed

text \<open>
  C6.  Each rule replaces every occurrence of its matcher, found by a scan from left to
  right: the replacements made are as many as the matches the scan finds, the scan finds
  all occurrences of the matcher (occurrences of these two texts cannot overlap), and when
  the matcher occurs twice both occurrences are replaced.
\<close>

theorem all_occurrences_replaced:
  "rule1 t = Returns (fst (re_subn_literal guard1 repl1 t))
   \<and> snd (re_subn_literal guard1 repl1 t) = length (re_finditer_literal guard1 0 t)
   \<and> re_finditer_literal guard1 0 t = occurrences guard1 0 t
   \<and> fst (re_subn_literal guard1 repl1 (a @ guard1 @ b @ guard1 @ c))
     = fst (re_subn_literal guard1 repl1 a) @ repl1 @ fst (re_subn_literal guard1 repl1 b)
       @ repl1 @ fst (re_subn_literal guard1 repl1 c)
   \<and> rule2 t = Returns (fst (re_subn_literal guard2 repl2 t))
   \<and> snd (re_subn_literal guard2 repl2 t) = length (re_finditer_literal guard2 0 t)
   \<and> re_finditer_literal guard2 0 t = occurrences guard2 0 t
   \<and> fst (re_subn_literal guard2 repl2 (a @ guard2 @ b @ guard2 @ c))
     = fst (re_subn_literal guard2 repl2 a) @ repl2 @ fst (re_subn_literal guard2 repl2 b)
       @ repl2 @ fst (re_subn_literal guard2 repl2 c)"
proof -
  have "re_sub_literal guard1 repl1 (a @ guard1 @ b @ guard1 @ c)
     = re_sub_literal guard1 repl1 a @ repl1 @ re_sub_literal guard1 repl1 b
       @ repl1 @ re_sub_literal guard1 repl1 c"
    by (simp add: sub_split [OF guard1_ne guard1_unbordered])
  moreover have "re_sub_literal guard2 repl2 (a @ guard2 @ b @ guard2 @ c)
     = re_sub_literal guard2 repl2 a @ repl2 @ re_sub_literal guard2 repl2 b
       @ repl2 @ re_sub_literal guard2 repl2 c"
    by (simp add: sub_split [OF guard2_ne guard2_unbordered])
  moreover note rule1_returns [of t] rule2_returns [of t]
    subn_count_finditer [of guard1 repl1 t 0] subn_count_finditer [of guard2 repl2 t 0]
    finditer_occurrences [OF guard1_ne guard1_unbordered, of 0 t]
    finditer_occurrences [OF guard2_ne guard2_unbordered, of 0 t]
  ultimately show ?thesis unfolding re_sub_literal_def by blast
qed

theorem all_occurrences_replaced_witness:
  "rule1 (guard1 @ guard1) = Returns (repl1 @ repl1)
   \<and> snd (re_subn_literal guard1 repl1 (guard1 @ guard1)) = 2
   \<and> re_finditer_literal guard1 0 (guard1 @ guard1) = [0, length guard1]
   \<and> rule2 (guard2 @ guard2) = Returns (repl2 @ repl2)
   \<and> snd (re_subn_literal guard2 repl2 (guard2 @ guard2)) = 2
   \<and> re_finditer_literal guard2 0 (guard2 @ guard2) = [0, length guard2]"
proof -
  have e: "fst (re_subn_literal l r []) = []" "re_finditer_literal l 0 [] = []"
    if "l \<noteq> []" for l r :: str
    using that sub_Nil [of l r] finditer_Nil [of l 0] by (simp_all add: re_sub_literal_def)
  have f: "re_finditer_literal l 0 (l @ l) = [0, length l]" if "l \<noteq> []" for l :: str
    using that finditer_match [of l 0 l] finditer_match [of l "length l" "[]"]
    by (simp add: finditer_Nil)
  show ?thesis
    using all_occurrences_replaced [of "guard1 @ guard1" "[]" "[]" "[]"]
      all_occurrences_replaced [of "guard2 @ guard2" "[]" "[]" "[]"]
      e [OF guard1_ne] e [OF guard2_ne] f [OF guard1_ne] f [OF guard2_ne]
    by simp
qed

text \<open>
  C7.  As stated (for every rule whose matcher has no occurrence in the text) the claim
  fails: \<^verbatim>\<open>re.sub\<close> takes the replacement as a template and compiles it before it scans
  the text.  The rule with matcher \<^verbatim>\<open>x\<close> and replacement \<^verbatim>\<open>\q\<close> raises on the text
  \<^verbatim>\<open>abc\<close>, in which \<^verbatim>\<open>x\<close> does not occur.
\<close>

theorem no_match_is_identity_counterexample:
  "re_parse (ascii ''x'') = Literal (ascii ''x'')
   \<and> \<not> sublist (ascii ''x'') (ascii ''abc'')
   \<and> re_sub (ascii ''x'') (esc ''q'') (ascii ''abc'') = Raises PatternError"
  by (simp add: re_sub_def esc_def ascii_def BACKSLASH_def SPECIAL_CHARS_def ascii_letter_def
      sublist_code)

text \<open>
  C7, amended.  A rule whose matcher is made of literal characters and escaped punctuation
  only, and whose replacement holds no backslash, returns the text unchanged when the
  matched text does not occur in it; it is not an error.  Both rules of the script are of
  this kind.
\<close>

theorem no_match_is_identity:
  "(re_parse p = Literal l \<and> BACKSLASH \<notin> set r \<and> \<not> sublist l t \<longrightarrow> re_sub p r t = Returns t)
   \<and> re_parse pattern1 = Literal guard1 \<and> BACKSLASH \<notin> set repl1
   \<and> re_parse pattern2 = Literal guard2 \<and> BACKSLASH \<notin> set repl2
   \<and> (\<not> sublist guard1 t \<longrightarrow> rule1 t = Returns t)
   \<and> (\<not> sublist guard2 t \<longrightarrow> rule2 t = Returns t)"
  by (simp add: re_sub_def parse_template_plain sub_noop re_parse_pattern1 re_parse_pattern2
      repl1_plain repl2_plain rule1_returns rule2_returns)

theorem no_match_is_identity_witness:
  "re_parse pattern1 = Literal guard1 \<and> BACKSLASH \<notin> set repl1
   \<and> \<not> sublist guard1 (LF # guard2)
   \<and> re_sub pattern1 repl1 (LF # guard2) = Returns (LF # guard2)
   \<and> \<not> sublist guard2 repl1 \<and> rule2 repl1 = Returns repl1"
  using no_match_is_identity [of pattern1 guard1 repl1 "LF # guard2"]
    no_match_is_identity [of pattern1 guard1 repl1 repl1]
    guard1_not_in_guard2_line guard2_not_in_repl1
  by simp

text \<open>
  C8.  As stated (whenever both rule applications complete, the run writes the result,
  prints the confirmation and ends in success) the claim fails: the write and the print
  come after the substitutions and can fail.  With a target that may be read but not
  written, both rules return and the run ends in \<open>PermissionError\<close>, nothing written,
  nothing printed; with a standard output that cannot encode the message, the file is
  written and the run ends in \<open>UnicodeEncodeError\<close>, nothing printed.
\<close>

theorem success_signal_counterexample:
  "rule1 (universal_newlines guard1) = Returns repl1 \<and> rule2 repl1 = Returns repl1
   \<and> script
       \<lparr>files = [target \<mapsto> \<lparr>data = Text guard1, readable = True, writable = False\<rparr>],
        stdout = [], stdout_encodes = utf8_stdout, content = None\<rparr>
     = (Uncaught PermissionError,
        \<lparr>files = [target \<mapsto> \<lparr>data = Text guard1, readable = True, writable = False\<rparr>],
         stdout = [], stdout_encodes = utf8_stdout, content = Some repl1\<rparr>)
   \<and> fst (script
       \<lparr>files = [target \<mapsto> \<lparr>data = Text guard1, readable = True, writable = True\<rparr>],
        stdout = [], stdout_encodes = ascii_stdout, content = None\<rparr>)
     = Uncaught UnicodeEncodeError
   \<and> stdout (snd (script
       \<lparr>files = [target \<mapsto> \<lparr>data = Text guard1, readable = True, writable = True\<rparr>],
        stdout = [], stdout_encodes = ascii_stdout, content = None\<rparr>))
     = []"
  using script_run
    [of "\<lparr>files = [target \<mapsto> \<lparr>data = Text guard1, readable = True, writable = False\<rparr>],
          stdout = [], stdout_encodes = utf8_stdout, content = None\<rparr>"
        "\<lparr>data = Text guard1, readable = True, writable = False\<rparr>" guard1]
    script_run
    [of "\<lparr>files = [target \<mapsto> \<lparr>data = Text guard1, readable = True, writable = True\<rparr>],
          stdout = [], stdout_encodes = ascii_stdout, content = None\<rparr>"
        "\<lparr>data = Text guard1, readable = True, writable = True\<rparr>" guard1]
    guard1_ne
  by (simp add: universal_newlines_id [OF no_CR_guard1] sub_self sub_noop [OF guard2_not_in_repl1]
      message_not_ascii rule1_returns rule2_returns)

text \<open>
  C8, amended.  Whenever both rule applications complete without raising, whether or not
  they changed the text, and the target may be written and the standard output can encode
  the confirmation message, the run writes the result, prints the message and finishes
  normally; the outcome and the message are the same in all these cases.
\<close>

theorem success_when_write_and_print_succeed:
  assumes "files st target = Some f" and "readable f" and "data f = Text d"
    and "rule1 (universal_newlines d) = Returns t1"
    and "rule2 t1 = Returns t2"
    and "writable f"
    and "list_all (stdout_encodes st) message"
  shows "script st =
    (Finished,
     st\<lparr>files := (files st)(target \<mapsto> f\<lparr>data := Text t2\<rparr>),
        stdout := stdout st @ [message], content := Some t2\<rparr>)"
  using assms(4-7) by (auto simp: script_run [OF assms(1-3)] rule1_returns rule2_returns Let_def)

theorem success_when_write_and_print_succeed_witness:
  "rule1 (universal_newlines repl1) = Returns repl1 \<and> rule2 repl1 = Returns repl1
   \<and> script
       \<lparr>files = [target \<mapsto> \<lparr>data = Text repl1, readable = True, writable = True\<rparr>],
        stdout = [], stdout_encodes = utf8_stdout, content = None\<rparr>
     = (Finished,
        \<lparr>files = [target \<mapsto> \<lparr>data = Text repl1, readable = True, writable = True\<rparr>],
         stdout = [message], stdout_encodes = utf8_stdout, content = Some repl1\<rparr>)
   \<and> rule1 (universal_newlines guard1) = Returns repl1
   \<and> script
       \<lparr>files = [target \<mapsto> \<lparr>data = Text guard1, readable = True, writable = True\<rparr>],
        stdout = [], stdout_encodes = utf8_stdout, content = None\<rparr>
     = (Finished,
        \<lparr>files = [target \<mapsto> \<lparr>data = Text repl1, readable = True, writable = True\<rparr>],
         stdout = [message], stdout_encodes = utf8_stdout, content = Some repl1\<rparr>)"
proof -
  have a: "rule1 (universal_newlines repl1) = Returns repl1"
    by (simp add: universal_newlines_id [OF no_CR_repl1] rule1_returns
        sub_noop [OF guard1_not_in_repl1])
  have b: "rule2 repl1 = Returns repl1"
    by (simp add: rule2_returns sub_noop [OF guard2_not_in_repl1])
  have c: "rule1 (universal_newlines guard1) = Returns repl1"
    using guard1_ne by (simp add: universal_newlines_id [OF no_CR_guard1] rule1_returns sub_self)
  show ?thesis
    using success_when_write_and_print_succeed
      [of "\<lparr>files = [target \<mapsto> \<lparr>data = Text repl1, readable = True, writable = True\<rparr>],
            stdout = [], stdout_encodes = utf8_stdout, content = None\<rparr>"
          "\<lparr>data = Text repl1, readable = True, writable = True\<rparr>" repl1 repl1 repl1]
      success_when_write_and_print_succeed
      [of "\<lparr>files = [target \<mapsto> \<lparr>data = Text guard1, readable = True, writable = True\<rparr>],
            stdout = [], stdout_encodes = utf8_stdout, content = None\<rparr>"
          "\<lparr>data = Text guard1, readable = True, writable = True\<rparr>" guard1 repl1 repl1]
      a b c message_utf8
    by simp
qed

text \<open>
  C9.  The pipeline of the two rules is idempotent: applied to its own result it returns
  that result unchanged.
\<close>

theorem pipeline_idempotent:
  "pipeline t = Returns (re_sub_literal guard2 repl2 (re_sub_literal guard1 repl1 t))
   \<and> pipeline (re_sub_literal guard2 repl2 (re_sub_literal guard1 repl1 t))
     = Returns (re_sub_literal guard2 repl2 (re_sub_literal guard1 repl1 t))"
proof -
  let ?u = "re_sub_literal guard1 repl1 t"
  let ?v = "re_sub_literal guard2 repl2 ?u"
  have "\<not> sublist guard1 ?u"
    by (rule not_sublist_sub [OF guard1_ne guard1_repl1 repl1_guard1])
  then have 1: "\<not> sublist guard1 ?v"
    using sublist_sub_imp_sublist [OF guard2_ne guard1_repl2 repl2_guard1] by blast
  have 2: "\<not> sublist guard2 ?v"
    by (rule not_sublist_sub [OF guard2_ne guard2_repl2 repl2_guard2])
  from 1 2 show ?thesis by (simp add: pipeline_returns sub_noop)
qed

theorem pipeline_idempotent_witness:
  "pipeline (guard1 @ LF # guard2) = Returns (repl1 @ LF # repl2)
   \<and> pipeline (repl1 @ LF # repl2) = Returns (repl1 @ LF # repl2)"
  using pipeline_idempotent [of "guard1 @ LF # guard2"]
  by (simp add: sub1_example sub2_example)

text \<open>
  C10.  For these two rules the order of application does not matter: rule 1 then rule 2
  gives the same text as rule 2 then rule 1.
\<close>

theorem rules_commute:
  "rule1 t = Returns (re_sub_literal guard1 repl1 t)
   \<and> rule2 t = Returns (re_sub_literal guard2 repl2 t)
   \<and> rule2 (re_sub_literal guard1 repl1 t) = rule1 (re_sub_literal guard2 repl2 t)"
  using sub_commute [OF guard1_ne guard2_ne guard2_repl1 repl1_guard2 guard2_guard1
      guard1_repl2 repl2_guard1 guard1_guard2, of t]
  by (simp add: rule1_returns rule2_returns)

theorem rules_commute_witness:
  "rule2 (repl1 @ LF # guard2) = Returns (repl1 @ LF # repl2)
   \<and> rule1 (re_sub_literal guard2 repl2 (guard1 @ LF # guard2)) = Returns (repl1 @ LF # repl2)"
  using rules_commute [of "guard1 @ LF # guard2"]
  by (simp add: sub1_example sub2_example rule2_returns)

end
